theory Spec2Isabelle
  imports Complex_Main
begin

section \<open>Silverman's critical-bandwidth test: the notebook's functions\<close>

text \<open>
  The notebook \<^verbatim>\<open>Silverman.ipynb\<close> defines four functions: \<^verbatim>\<open>find_maxima\<close>,
  \<^verbatim>\<open>binary_search\<close>, \<^verbatim>\<open>find_critical_value\<close> and \<^verbatim>\<open>bootstrap\<close>. They are
  embedded below as they are written. A Python float is read as the real number it
  stands for, a Python int as an \<open>int\<close>. What the notebook runs on is a parameter of
  the model: the calls into seaborn (\<^verbatim>\<open>kdeplot\<close>) and scipy
  (\<^verbatim>\<open>gaussian_kde(...).resample\<close>), and the rounding of float arithmetic. Numpy's
  \<^verbatim>\<open>arange\<close>, scipy's \<^verbatim>\<open>argrelmax\<close> and Python's indexing are written out from their
  documented behaviour.
\<close>

subsection \<open>Exceptions, interpreter state, sequencing\<close>

datatype exn = NameError string | IndexError | ZeroDivisionError | LibraryError string

text \<open>A curve is the data of one matplotlib line: its points \<open>(x, y)\<close> from left to right.\<close>

type_synonym curve = "(real \<times> real) list"

text \<open>
  The state a call can touch: the lines on the axes of matplotlib's current figure, the
  random generator that \<^verbatim>\<open>resample\<close> draws from, and what \<^verbatim>\<open>print\<close> has written.
\<close>

record 'g world =
  figure :: "curve list"
  rng :: 'g
  stdout :: "int list"

type_synonym ('a, 'g) py = "'g world \<Rightarrow> (exn + 'a) \<times> 'g world"

definition ret :: "'a \<Rightarrow> ('a, 'g) py" where
  "ret x w = (Inr x, w)"

definition raise :: "exn \<Rightarrow> ('a, 'g) py" where
  "raise e w = (Inl e, w)"

definition lift :: "exn + 'a \<Rightarrow> ('a, 'g) py" where
  "lift r w = (r, w)"

text \<open>Statement sequencing: an exception of the first statement skips the rest.\<close>

definition bnd :: "('a, 'g) py \<Rightarrow> ('a \<Rightarrow> ('b, 'g) py) \<Rightarrow> ('b, 'g) py" where
  "bnd m f w = (case m w of (Inl e, w') \<Rightarrow> (Inl e, w') | (Inr x, w') \<Rightarrow> f x w')"

subsection \<open>Library behaviour\<close>

text \<open>
  What the notebook runs on.
  \<^item> \<open>fl x\<close> is the double that float arithmetic returns for an operation whose exact
    result is \<open>x\<close> (rounding to the nearest double).
  \<^item> \<open>kde_lines data h\<close> are the lines that \<^verbatim>\<open>sns.kdeplot(data, bw=h)\<close> adds to the axes, or
    the exception it raises: the density curve, or no line at all (an empty sample is
    plotted as nothing). It is a function of the sample and the bandwidth: the same
    arguments give the same lines. What it does at a bandwidth \<open>h \<le> 0\<close> is left open.
  \<^item> \<open>kde_resample data h g\<close> is
    \<^verbatim>\<open>stats.gaussian_kde(dataset=data, bw_method=h).resample()[0]\<close> drawn with generator
    state \<open>g\<close>, together with the generator's next state.
\<close>

record 'g libs =
  fl :: "real \<Rightarrow> real"
  kde_lines :: "real list \<Rightarrow> real \<Rightarrow> exn + curve list"
  kde_resample :: "real list \<Rightarrow> real \<Rightarrow> 'g \<Rightarrow> (exn + real list) \<times> 'g"

text \<open>Python and numpy indexing \<^verbatim>\<open>xs[i]\<close>: a negative index counts from the end.\<close>

definition py_index :: "'a list \<Rightarrow> int \<Rightarrow> exn + 'a" where
  "py_index xs i =
     (if 0 \<le> i \<and> i < int (length xs) then Inr (xs ! nat i)
      else if - int (length xs) \<le> i \<and> i < 0 then Inr (xs ! nat (int (length xs) + i))
      else Inl IndexError)"

text \<open>
  \<^verbatim>\<open>np.arange(0, stop, step)\<close> for doubles \<open>stop\<close> and \<open>step\<close>. Numpy divides \<open>stop\<close> by
  \<open>step\<close> in float arithmetic and takes the ceiling of that double as the length (no
  element when it is not positive); the element at index \<open>i\<close> is the float product of
  \<open>i\<close> and \<open>step\<close>. A zero step raises.
\<close>

definition np_arange :: "'g libs \<Rightarrow> real \<Rightarrow> real \<Rightarrow> exn + real list" where
  "np_arange L stop step =
     (if step = 0 then Inl ZeroDivisionError
      else Inr (map (\<lambda>i. fl L (real i * step)) [0..<nat \<lceil>fl L (stop / step)\<rceil>]))"

text \<open>
  \<^verbatim>\<open>signal.argrelmax(y_vals)[0]\<close> (order 1, mode clip): the indices whose value is
  strictly greater than both neighbours; the two end points never qualify.
\<close>

definition argrelmax :: "real list \<Rightarrow> nat list" where
  "argrelmax ys =
     filter (\<lambda>i. 0 < i \<and> i + 1 < length ys \<and> ys ! (i - 1) < ys ! i \<and> ys ! (i + 1) < ys ! i)
       [0..<length ys]"

text \<open>\<^verbatim>\<open>int(x / 2)\<close> for an int \<open>x\<close>: true division, then truncation towards zero.\<close>

definition py_int_half :: "int \<Rightarrow> int" where
  "py_int_half x = (if 0 \<le> x then x div 2 else - ((- x) div 2))"

definition plt_clf :: "(unit, 'g) py" where
  "plt_clf w = (Inr (), w\<lparr>figure := []\<rparr>)"

text \<open>\<^verbatim>\<open>sns.kdeplot(data, bw=h).get_lines()\<close>: draws on the current axes, returns their lines.\<close>

definition sns_kdeplot :: "'g libs \<Rightarrow> real list \<Rightarrow> real \<Rightarrow> (curve list, 'g) py" where
  "sns_kdeplot L data h w =
     (case kde_lines L data h of
        Inl e \<Rightarrow> (Inl e, w)
      | Inr cs \<Rightarrow> (Inr (figure w @ cs), w\<lparr>figure := figure w @ cs\<rparr>))"

definition gaussian_kde_resample :: "'g libs \<Rightarrow> real list \<Rightarrow> real \<Rightarrow> (real list, 'g) py" where
  "gaussian_kde_resample L data h w =
     (case kde_resample L data h (rng w) of (r, g') \<Rightarrow> (r, w\<lparr>rng := g'\<rparr>))"

definition py_print :: "int \<Rightarrow> (unit, 'g) py" where
  "py_print i w = (Inr (), w\<lparr>stdout := stdout w @ [i]\<rparr>)"

text \<open>Reading a global name of the notebook; an unbound name raises \<open>NameError\<close>.\<close>

definition lookup_global :: "(string \<rightharpoonup> real list) \<Rightarrow> string \<Rightarrow> (real list, 'g) py" where
  "lookup_global G x = (case G x of None \<Rightarrow> raise (NameError x) | Some v \<Rightarrow> ret v)"

subsection \<open>\<^verbatim>\<open>find_maxima\<close>\<close>

definition find_maxima :: "'g libs \<Rightarrow> real list \<Rightarrow> real \<Rightarrow> (int \<times> real list, 'g) py" where
  "find_maxima L data h =
     bnd plt_clf (\<lambda>_.
     bnd (sns_kdeplot L data h) (\<lambda>lines.
     bnd (lift (py_index lines 0)) (\<lambda>line.
       let x_vals = map fst line;
           y_vals = map snd line;
           maxima = argrelmax y_vals;
           maxima_centers = map (\<lambda>i. x_vals ! i) maxima
       in ret (int (length maxima), maxima_centers))))"

text \<open>
  What \<^verbatim>\<open>find_maxima(data, h)[0]\<close> evaluates to: the number of maxima of the first line
  the library draws for \<open>data\<close> at bandwidth \<open>h\<close>; the library's exception; or the
  \<open>IndexError\<close> of \<^verbatim>\<open>get_lines()[0]\<close> when the library drew nothing.
\<close>

definition mode_count :: "'g libs \<Rightarrow> real list \<Rightarrow> real \<Rightarrow> exn + int" where
  "mode_count L data h =
     (case kde_lines L data h of
        Inl e \<Rightarrow> Inl e
      | Inr [] \<Rightarrow> Inl IndexError
      | Inr (c # _) \<Rightarrow> Inr (int (length (argrelmax (map snd c)))))"

subsection \<open>\<^verbatim>\<open>binary_search\<close>\<close>

text \<open>The local variables that the loop of \<^verbatim>\<open>binary_search\<close> updates.\<close>

record bs_vars =
  start :: int
  end' :: int
  found :: bool
  found_h :: real

text \<open>One pass through the body of the \<^verbatim>\<open>while\<close> loop.\<close>

definition bs_body :: "'g libs \<Rightarrow> real list \<Rightarrow> real list \<Rightarrow> int \<Rightarrow> bs_vars \<Rightarrow> (bs_vars, 'g) py" where
  "bs_body L data searchList k v =
     (let midpoint = py_int_half (start v + end' v) in
      bnd (lift (py_index searchList midpoint)) (\<lambda>prop_h.
      bnd (find_maxima L data prop_h) (\<lambda>m1.
      if fst m1 = k then
        bnd (lift (py_index searchList (midpoint - 1))) (\<lambda>check_h.
        bnd (find_maxima L data check_h) (\<lambda>m2.
        if fst m2 = k then ret (v\<lparr>end' := midpoint - 1\<rparr>)
        else ret (v\<lparr>found_h := prop_h, found := True\<rparr>)))
      else
        bnd (find_maxima L data prop_h) (\<lambda>m3.
        if fst m3 > k then ret (v\<lparr>start := midpoint + 1\<rparr>)
        else
          bnd (find_maxima L data prop_h) (\<lambda>m4.
          if fst m4 < k then ret (v\<lparr>end' := midpoint - 1\<rparr>)
          else ret v)))))"

text \<open>
  The \<^verbatim>\<open>while (start <= end) and (found==False)\<close> loop. An exception in the body leaves
  the loop. The loop ends: every pass that completes sets \<open>found\<close> or shrinks the
  interval from \<open>start\<close> to \<open>end\<close>.
\<close>

function bs_while ::
  "'g libs \<Rightarrow> real list \<Rightarrow> real list \<Rightarrow> int \<Rightarrow> bs_vars \<Rightarrow> (bs_vars, 'g) py" where
  "bs_while L data searchList k v w =
     (if start v \<le> end' v \<and> found v = False then
        (case bs_body L data searchList k v w of
           (Inl e, w') \<Rightarrow> (Inl e, w')
         | (Inr v', w') \<Rightarrow> bs_while L data searchList k v' w')
      else (Inr v, w))"
  by pat_completeness auto
termination
proof (relation "measure (\<lambda>(L, data, searchList, k, v, w).
          if found v then 0 else nat (end' v - start v + 2))", goal_cases)
  case 1
  show ?case by simp
next
  case (2 L data searchList k v w x y b)
  let ?mid = "py_int_half (start v + end' v)"
  from 2 have guard: "start v \<le> end' v" "\<not> found v"
    by simp_all
  have mid: "start v \<le> ?mid \<and> ?mid \<le> end' v"
    using guard(1) unfolding py_int_half_def by (simp; linarith)
  from 2 have "bs_body L data searchList k v w = (Inr b, y)"
    by simp
  then have "b = v\<lparr>start := ?mid + 1\<rparr> \<or> b = v\<lparr>end' := ?mid - 1\<rparr> \<or>
             (\<exists>h. b = v\<lparr>found_h := h, found := True\<rparr>)"
    by (auto simp add: bs_body_def Let_def bnd_def lift_def ret_def find_maxima_def plt_clf_def
        sns_kdeplot_def py_index_def split: sum.splits if_splits prod.splits list.splits)
  with guard mid show ?case
    by auto
qed

declare bs_while.simps [simp del]

text \<open>
  The same loop with a bound on the number of passes: \<open>None\<close> when the bound is used up
  before the loop has ended. It serves to state within how many passes the loop ends.
\<close>

primrec bs_while_passes ::
  "nat \<Rightarrow> 'g libs \<Rightarrow> real list \<Rightarrow> real list \<Rightarrow> int \<Rightarrow> bs_vars \<Rightarrow> 'g world
     \<Rightarrow> ((exn + bs_vars) \<times> 'g world) option" where
  "bs_while_passes 0 L data searchList k v w =
     (if start v \<le> end' v \<and> found v = False then None else Some (Inr v, w))"
| "bs_while_passes (Suc n) L data searchList k v w =
     (if start v \<le> end' v \<and> found v = False then
        (case bs_body L data searchList k v w of
           (Inl e, w') \<Rightarrow> Some (Inl e, w')
         | (Inr v', w') \<Rightarrow> bs_while_passes n L data searchList k v' w')
      else Some (Inr v, w))"

text \<open>The assignments before the loop.\<close>

definition bs_init :: "real list \<Rightarrow> bs_vars" where
  "bs_init searchList =
     \<lparr>start = 0, end' = int (length searchList) - 1, found = False, found_h = 12345\<rparr>"

definition binary_search :: "'g libs \<Rightarrow> real list \<Rightarrow> real \<Rightarrow> real \<Rightarrow> int \<Rightarrow> (real, 'g) py" where
  "binary_search L data searchMax searchStep k =
     bnd (lift (np_arange L searchMax searchStep)) (\<lambda>searchList.
     bnd (bs_while L data searchList k (bs_init searchList)) (\<lambda>v.
     ret (found_h v)))"

subsection \<open>\<^verbatim>\<open>find_critical_value\<close>\<close>

definition find_critical_value ::
  "'g libs \<Rightarrow> real list \<Rightarrow> real \<Rightarrow> real \<Rightarrow> int \<Rightarrow> (real, 'g) py" where
  "find_critical_value L data searchMax searchStep k =
     bnd (binary_search L data searchMax searchStep k) (\<lambda>h_crit.
     bnd (gaussian_kde_resample L data h_crit) (\<lambda>X.
     bnd (binary_search L X searchMax searchStep k) (\<lambda>new_h_crit.
     ret new_h_crit)))"

subsection \<open>\<^verbatim>\<open>bootstrap\<close>\<close>

text \<open>
  The global names bound when the notebook's cells have run down to the definition of
  \<^verbatim>\<open>bootstrap\<close>: the data set \<^verbatim>\<open>chondrites\<close>. No cell binds \<^verbatim>\<open>modesList\<close>; the only
  assignment to it, inside \<^verbatim>\<open>bootstrap\<close>, is commented out.
\<close>

definition chondrites :: "real list" where
  "chondrites =
     [20.77, 22.56, 22.71, 22.99, 26.39, 27.08, 27.32, 27.33, 27.57, 27.81, 28.69,
      29.36, 30.25, 31.89, 32.88, 33.23, 33.28, 33.40, 33.52, 33.83, 33.95, 34.82]"

definition notebook_globals :: "string \<rightharpoonup> real list" where
  "notebook_globals = [''chondrites'' \<mapsto> chondrites]"

text \<open>The \<^verbatim>\<open>for i in range(0, num_simulations)\<close> loop, over the values \<open>i\<close> still to come.\<close>

fun bootstrap_for ::
  "'g libs \<Rightarrow> (string \<rightharpoonup> real list) \<Rightarrow> int list \<Rightarrow> real list \<Rightarrow> (real list, 'g) py" where
  "bootstrap_for L G [] hlist = ret hlist"
| "bootstrap_for L G (i # rest) hlist =
     bnd (py_print i) (\<lambda>_.
     bnd (lookup_global G ''chondrites'') (\<lambda>chondrites_value.
     bnd (find_critical_value L chondrites_value 10 0.01 2) (\<lambda>h.
     bootstrap_for L G rest (hlist @ [h]))))"

text \<open>
  \<^verbatim>\<open>bootstrap(data, searchMax, searchStep, k, num_simulations)\<close>, run with the global
  names \<open>G\<close>. The body reads none of \<open>data\<close>, \<open>searchMax\<close>, \<open>searchStep\<close>, \<open>k\<close>.
\<close>

definition bootstrap ::
  "'g libs \<Rightarrow> (string \<rightharpoonup> real list) \<Rightarrow> real list \<Rightarrow> real \<Rightarrow> real \<Rightarrow> int \<Rightarrow> int
     \<Rightarrow> (real list \<times> real list, 'g) py" where
  "bootstrap L G data searchMax searchStep k num_simulations =
     bnd (bootstrap_for L G [0..num_simulations - 1] []) (\<lambda>hlist.
     bnd (lookup_global G ''modesList'') (\<lambda>modesList.
     ret (hlist, modesList)))"

subsection \<open>A stand-in library for concrete runs\<close>

text \<open>
  To run the functions on explicit inputs the library parameter needs a value. The
  stand-in below draws, for bandwidth \<open>h\<close>, a saw-tooth with \<open>m h\<close> teeth, so that
  \<^verbatim>\<open>find_maxima\<close> counts \<open>m h\<close> maxima, and resamples by returning the data unchanged.
  Its arithmetic is exact; on the whole numbers of the runs below double arithmetic is
  exact as well.
\<close>

definition sawtooth :: "nat \<Rightarrow> curve" where
  "sawtooth n = map (\<lambda>i. (real i, if odd i then 1 else 0)) [0..<2 * n + 1]"

definition profile_libs :: "(real \<Rightarrow> nat) \<Rightarrow> unit libs" where
  "profile_libs m =
     \<lparr>fl = (\<lambda>x. x),
      kde_lines = (\<lambda>data h. Inr [sawtooth (m h)]),
      kde_resample = (\<lambda>data h g. (Inr data, g))\<rparr>"

definition fresh :: "unit world" where
  "fresh = \<lparr>figure = [], rng = (), stdout = []\<rparr>"

section \<open>Basic facts\<close>

subsection \<open>\<^verbatim>\<open>find_maxima\<close> and one pass of the loop\<close>

lemma find_maxima_run:
  "find_maxima L data h w =
     (case kde_lines L data h of
        Inl e \<Rightarrow> (Inl e, w\<lparr>figure := []\<rparr>)
      | Inr [] \<Rightarrow> (Inl IndexError, w\<lparr>figure := []\<rparr>)
      | Inr (c # cs) \<Rightarrow>
          (Inr (int (length (argrelmax (map snd c))),
                map (\<lambda>i. map fst c ! i) (argrelmax (map snd c))),
           w\<lparr>figure := c # cs\<rparr>))"
  by (simp add: find_maxima_def bnd_def plt_clf_def sns_kdeplot_def lift_def py_index_def
      ret_def Let_def split: sum.splits list.splits)

lemma find_maxima_count:
  "map_sum id fst (fst (find_maxima L data h w)) = mode_count L data h"
  by (simp add: find_maxima_run mode_count_def split: sum.splits list.splits)

lemma bs_body_result:
  "fst (bs_body L data grid k v w) =
     (case py_index grid (py_int_half (start v + end' v)) of
        Inl e \<Rightarrow> Inl e
      | Inr prop_h \<Rightarrow>
         (case mode_count L data prop_h of
            Inl e \<Rightarrow> Inl e
          | Inr c \<Rightarrow>
             if c = k then
               (case py_index grid (py_int_half (start v + end' v) - 1) of
                  Inl e \<Rightarrow> Inl e
                | Inr check_h \<Rightarrow>
                   (case mode_count L data check_h of
                      Inl e \<Rightarrow> Inl e
                    | Inr c' \<Rightarrow>
                       if c' = k then Inr (v\<lparr>end' := py_int_half (start v + end' v) - 1\<rparr>)
                       else Inr (v\<lparr>found_h := prop_h, found := True\<rparr>)))
             else if c > k then Inr (v\<lparr>start := py_int_half (start v + end' v) + 1\<rparr>)
             else Inr (v\<lparr>end' := py_int_half (start v + end' v) - 1\<rparr>)))"
  by (auto simp add: bs_body_def Let_def bnd_def lift_def ret_def find_maxima_run mode_count_def
      split: sum.splits list.splits)

lemma py_int_half_between:
  "a \<le> b \<Longrightarrow> a \<le> py_int_half (a + b) \<and> py_int_half (a + b) \<le> b"
  unfolding py_int_half_def by (simp; linarith)

lemma bs_body_decreases:
  assumes "start v \<le> end' v" and "\<not> found v"
    and "fst (bs_body L data grid k v w) = Inr v'"
  shows "found v' \<or>
         (end' v' - start v' < end' v - start v \<and> - 1 \<le> end' v' - start v')"
proof -
  from py_int_half_between [OF assms(1)]
  have m: "start v \<le> py_int_half (start v + end' v)" "py_int_half (start v + end' v) \<le> end' v"
    by simp_all
  from assms(3) m show ?thesis
    unfolding bs_body_result
    by (auto split: sum.splits if_splits)
qed

subsection \<open>The stand-in library and indexing\<close>

lemma filter_odd_upt: "length (filter odd [0..<2 * n + 1]) = n"
  by (induction n) simp_all

lemma sawtooth_snd_nth:
  "i < 2 * n + 1 \<Longrightarrow> map snd (sawtooth n) ! i = (if odd i then 1 else 0)"
  by (simp add: sawtooth_def del: upt_Suc)

lemma argrelmax_sawtooth: "argrelmax (map snd (sawtooth n)) = filter odd [0..<2 * n + 1]"
proof -
  have len: "length (map snd (sawtooth n)) = 2 * n + 1"
    by (simp add: sawtooth_def)
  show ?thesis
    unfolding argrelmax_def len
  proof (rule filter_cong [OF refl])
    fix i assume "i \<in> set [0..<2 * n + 1]"
    then have i: "i < 2 * n + 1" by (simp del: upt_Suc)
    show "(0 < i \<and> i + 1 < 2 * n + 1 \<and>
           map snd (sawtooth n) ! (i - 1) < map snd (sawtooth n) ! i \<and>
           map snd (sawtooth n) ! (i + 1) < map snd (sawtooth n) ! i) = odd i"
    proof (cases "odd i")
      case True
      then have "0 < i" "i + 1 < 2 * n + 1" using i by (auto elim: oddE)
      moreover have "i - 1 < 2 * n + 1" using i by simp
      ultimately show ?thesis using True i
        by (simp add: sawtooth_snd_nth)
    next
      case False
      then show ?thesis using i
        by (cases "i + 1 < 2 * n + 1") (simp_all add: sawtooth_snd_nth)
    qed
  qed
qed

lemma mode_count_profile: "mode_count (profile_libs m) data h = Inr (int (m h))"
proof -
  have "length (argrelmax (map snd (sawtooth (m h)))) = m h"
    by (simp only: argrelmax_sawtooth filter_odd_upt)
  then show ?thesis
    by (simp add: mode_count_def profile_libs_def)
qed

subsection \<open>The loop of \<^verbatim>\<open>binary_search\<close>\<close>

lemma py_index_nth: "0 \<le> i \<Longrightarrow> i < int (length xs) \<Longrightarrow> py_index xs i = Inr (xs ! nat i)"
  by (simp add: py_index_def)

lemma bs_while_stop:
  "\<not> (start v \<le> end' v \<and> \<not> found v) \<Longrightarrow> bs_while L data grid k v w = (Inr v, w)"
  by (subst bs_while.simps) auto

lemma bs_while_go:
  "start v \<le> end' v \<Longrightarrow> \<not> found v \<Longrightarrow>
     bs_while L data grid k v w =
       (case bs_body L data grid k v w of
          (Inl e, w') \<Rightarrow> (Inl e, w')
        | (Inr v', w') \<Rightarrow> bs_while L data grid k v' w')"
  by (subst bs_while.simps) simp

lemma bs_while_passes_enough:
  "found v \<or> nat (end' v - start v + 1) \<le> n \<Longrightarrow>
     bs_while_passes n L data grid k v w = Some (bs_while L data grid k v w)"
proof (induction n arbitrary: v w)
  case 0
  then have "\<not> (start v \<le> end' v \<and> \<not> found v)"
    by auto
  then show ?case
    by (auto simp: bs_while_stop)
next
  case (Suc n)
  show ?case
  proof (cases "start v \<le> end' v \<and> \<not> found v")
    case False
    then show ?thesis
      by (auto simp: bs_while_stop)
  next
    case True
    obtain r w1 where b: "bs_body L data grid k v w = (r, w1)"
      by (cases "bs_body L data grid k v w")
    show ?thesis
    proof (cases r)
      case (Inl e)
      with True b show ?thesis
        by (simp add: bs_while_go)
    next
      case (Inr u)
      with b have "fst (bs_body L data grid k v w) = Inr u"
        by simp
      with True bs_body_decreases [of v L data grid k w u]
      have "found u \<or> (end' u - start u < end' v - start v \<and> - 1 \<le> end' u - start u)"
        by simp
      with True Suc.prems have "found u \<or> nat (end' u - start u + 1) \<le> n"
        by auto
      from Suc.IH [OF this, of w1] True b Inr show ?thesis
        by (simp add: bs_while_go)
    qed
  qed
qed

lemma bs_while_rule:
  assumes "fst (bs_while L data grid k v w) = Inr v'"
    and "P v"
    and step: "\<And>u w u'. P u \<Longrightarrow> start u \<le> end' u \<Longrightarrow> \<not> found u \<Longrightarrow>
                 fst (bs_body L data grid k u w) = Inr u' \<Longrightarrow> P u'"
  shows "P v' \<and> \<not> (start v' \<le> end' v' \<and> \<not> found v')"
  using assms
proof (induction L data grid k v w rule: bs_while.induct)
  case (1 L data grid k v w)
  show ?case
  proof (cases "start v \<le> end' v \<and> found v = False")
    case False
    then have "bs_while L data grid k v w = (Inr v, w)"
      by (subst bs_while.simps) auto
    with False "1.prems" show ?thesis
      by auto
  next
    case True
    obtain r w1 where b: "bs_body L data grid k v w = (r, w1)"
      by (cases "bs_body L data grid k v w")
    from True b have unfold: "bs_while L data grid k v w =
        (case r of Inl e \<Rightarrow> (Inl e, w1) | Inr u \<Rightarrow> bs_while L data grid k u w1)"
      by (subst bs_while.simps) (auto split: sum.splits)
    with "1.prems"(1) obtain u where r: "r = Inr u"
      and rest: "fst (bs_while L data grid k u w1) = Inr v'"
      by (cases r) simp_all
    have "P u"
      using "1.prems"(3) [of v w u] "1.prems"(2) True b r by simp
    with "1.IH" [of r w1 u] True b r rest "1.prems"(3) show ?thesis
      by simp
  qed
qed

lemma bs_while_world:
  "fst (bs_while L data grid k v w) = fst (bs_while L data grid k v w')"
proof (induction L data grid k v w arbitrary: w' rule: bs_while.induct)
  case (1 L data grid k v w)
  show ?case
  proof (cases "start v \<le> end' v \<and> \<not> found v")
    case False
    have "bs_while L data grid k v w = (Inr v, w)"
      using False by (rule bs_while_stop)
    moreover have "bs_while L data grid k v w' = (Inr v, w')"
      using False by (rule bs_while_stop)
    ultimately show ?thesis
      by simp
  next
    case True
    obtain r w1 where b: "bs_body L data grid k v w = (r, w1)"
      by (cases "bs_body L data grid k v w")
    obtain r' w1' where b': "bs_body L data grid k v w' = (r', w1')"
      by (cases "bs_body L data grid k v w'")
    have "fst (bs_body L data grid k v w) = fst (bs_body L data grid k v w')"
      by (simp only: bs_body_result)
    with b b' have rr: "r' = r" by simp
    show ?thesis
    proof (cases r)
      case (Inl e)
      with True b b' rr show ?thesis
        by (simp add: bs_while_go)
    next
      case (Inr u)
      from True have "start v \<le> end' v \<and> found v = False" by simp
      from "1.IH" [OF this b [symmetric] Inr, of w1']
      have "fst (bs_while L data grid k u w1) = fst (bs_while L data grid k u w1')" .
      with True b b' rr Inr show ?thesis
        by (simp add: bs_while_go)
    qed
  qed
qed

lemma bs_while_fst:
  "fst (bs_while L data grid k v w) =
     (if start v \<le> end' v \<and> \<not> found v then
        (case fst (bs_body L data grid k v w) of
           Inl e \<Rightarrow> Inl e
         | Inr v' \<Rightarrow> fst (bs_while L data grid k v' w))
      else Inr v)"
proof (cases "start v \<le> end' v \<and> \<not> found v")
  case False
  have "bs_while L data grid k v w = (Inr v, w)"
    using False by (rule bs_while_stop)
  with False show ?thesis
    by auto
next
  case True
  obtain r w1 where b: "bs_body L data grid k v w = (r, w1)"
    by (cases "bs_body L data grid k v w")
  show ?thesis
  proof (cases r)
    case (Inl e)
    with True b show ?thesis by (simp add: bs_while_go)
  next
    case (Inr u)
    with True b bs_while_world [of L data grid k u w1 w] show ?thesis
      by (simp add: bs_while_go)
  qed
qed

lemma binary_search_result:
  "fst (binary_search L data searchMax searchStep k w) =
     (case np_arange L searchMax searchStep of
        Inl e \<Rightarrow> Inl e
      | Inr grid \<Rightarrow> map_sum id found_h (fst (bs_while L data grid k (bs_init grid) w)))"
  by (simp add: binary_search_def bnd_def lift_def ret_def split: sum.splits prod.splits)

lemma bs_body_cases:
  assumes "fst (bs_body L data grid k u w) = Inr u'"
  obtains
    (upper) prop_h c where
      "py_index grid (py_int_half (start u + end' u)) = Inr prop_h"
      "mode_count L data prop_h = Inr c" "k < c"
      "u' = u\<lparr>start := py_int_half (start u + end' u) + 1\<rparr>"
  | (lower) prop_h c where
      "py_index grid (py_int_half (start u + end' u)) = Inr prop_h"
      "mode_count L data prop_h = Inr c" "c < k"
      "u' = u\<lparr>end' := py_int_half (start u + end' u) - 1\<rparr>"
  | (again) prop_h check_h where
      "py_index grid (py_int_half (start u + end' u)) = Inr prop_h"
      "mode_count L data prop_h = Inr k"
      "py_index grid (py_int_half (start u + end' u) - 1) = Inr check_h"
      "mode_count L data check_h = Inr k"
      "u' = u\<lparr>end' := py_int_half (start u + end' u) - 1\<rparr>"
  | (hit) prop_h check_h c where
      "py_index grid (py_int_half (start u + end' u)) = Inr prop_h"
      "mode_count L data prop_h = Inr k"
      "py_index grid (py_int_half (start u + end' u) - 1) = Inr check_h"
      "mode_count L data check_h = Inr c" "c \<noteq> k"
      "u' = u\<lparr>found_h := prop_h, found := True\<rparr>"
  using assms unfolding bs_body_result
  by (force split: sum.splits if_splits)

lemma bs_body_keeps:
  assumes "0 \<le> start u" "start u \<le> end' u" "end' u < int (length grid)"
    and "fst (bs_body L data grid k u w) = Inr u'" and "\<not> found u"
  shows "0 \<le> start u' \<and> end' u' < int (length grid) \<and>
         (if found u' then
            (\<exists>mid. 0 \<le> mid \<and> mid < int (length grid) \<and> found_h u' = grid ! nat mid \<and>
               mode_count L data (grid ! nat mid) = Inr k \<and>
               (0 < mid \<longrightarrow>
                 (\<exists>c. mode_count L data (grid ! nat (mid - 1)) = Inr c \<and> c \<noteq> k)))
          else found_h u' = found_h u)"
proof -
  define mid where "mid = (start u + end' u) div 2"
  have half: "py_int_half (start u + end' u) = mid"
    using assms(1,2) by (simp add: py_int_half_def mid_def)
  have range: "0 \<le> mid" "mid < int (length grid)" "start u \<le> mid" "mid \<le> end' u"
    using assms(1-3) by (auto simp: mid_def)
  then have idx: "py_index grid mid = Inr (grid ! nat mid)"
    by (simp add: py_index_nth)
  have prev: "py_index grid (mid - 1) = Inr (grid ! nat (mid - 1))" if "0 < mid"
    using that range by (simp add: py_index_nth)
  from assms(4) show ?thesis
  proof (cases rule: bs_body_cases)
    case (upper prop_h c)
    then show ?thesis using assms(1-3,5) range by (simp add: half)
  next
    case (lower prop_h c)
    then show ?thesis using assms(1-3,5) range by (simp add: half)
  next
    case (again prop_h check_h)
    then show ?thesis using assms(1-3,5) range by (simp add: half)
  next
    case (hit prop_h check_h c)
    then have p: "prop_h = grid ! nat mid"
      by (simp add: half idx)
    have "\<exists>c. mode_count L data (grid ! nat (mid - 1)) = Inr c \<and> c \<noteq> k" if "0 < mid"
      using hit(3,4,5) prev [OF that] by (auto simp: half)
    with hit(2) p range
    have "0 \<le> mid \<and> mid < int (length grid) \<and> prop_h = grid ! nat mid \<and>
               mode_count L data (grid ! nat mid) = Inr k \<and>
               (0 < mid \<longrightarrow>
                 (\<exists>c. mode_count L data (grid ! nat (mid - 1)) = Inr c \<and> c \<noteq> k))"
      by simp
    then have "\<exists>mid. 0 \<le> mid \<and> mid < int (length grid) \<and> prop_h = grid ! nat mid \<and>
               mode_count L data (grid ! nat mid) = Inr k \<and>
               (0 < mid \<longrightarrow>
                 (\<exists>c. mode_count L data (grid ! nat (mid - 1)) = Inr c \<and> c \<noteq> k))"
      by (rule exI)
    with hit(6) assms(1-3) show ?thesis
      by simp
  qed
qed

lemma bs_while_final:
  assumes "fst (bs_while L data grid k (bs_init grid) w) = Inr v"
  shows "\<not> (start v \<le> end' v \<and> \<not> found v) \<and>
         (if found v then
            (\<exists>mid. 0 \<le> mid \<and> mid < int (length grid) \<and> found_h v = grid ! nat mid \<and>
               mode_count L data (grid ! nat mid) = Inr k \<and>
               (0 < mid \<longrightarrow>
                 (\<exists>c. mode_count L data (grid ! nat (mid - 1)) = Inr c \<and> c \<noteq> k)))
          else found_h v = 12345)"
proof -
  let ?Q = "\<lambda>u. if found u then
            (\<exists>mid. 0 \<le> mid \<and> mid < int (length grid) \<and> found_h u = grid ! nat mid \<and>
               mode_count L data (grid ! nat mid) = Inr k \<and>
               (0 < mid \<longrightarrow>
                 (\<exists>c. mode_count L data (grid ! nat (mid - 1)) = Inr c \<and> c \<noteq> k)))
          else found_h u = 12345"
  let ?P = "\<lambda>u. 0 \<le> start u \<and> end' u < int (length grid) \<and> ?Q u"
  have init: "?P (bs_init grid)"
    by (simp add: bs_init_def)
  have "?P v \<and> \<not> (start v \<le> end' v \<and> \<not> found v)"
  proof (rule bs_while_rule [where P = ?P, OF assms init])
    fix u :: bs_vars and w0 :: "'a world" and u' :: bs_vars
    assume u: "?P u" and guard: "start u \<le> end' u" "\<not> found u"
      and body: "fst (bs_body L data grid k u w0) = Inr u'"
    from u guard have "0 \<le> start u" "end' u < int (length grid)" "found_h u = 12345"
      by simp_all
    with bs_body_keeps [of u grid L data k w0 u'] guard body show "?P u'"
      by (simp split: if_splits)
  qed
  then show ?thesis by blast
qed

lemma np_arange_nth:
  "np_arange L searchMax searchStep = Inr grid \<Longrightarrow> i < length grid \<Longrightarrow>
     grid ! i = fl L (real i * searchStep)"
  by (auto simp: np_arange_def split: if_splits)

text \<open>
  Products \<open>i * s\<close> rounded with relative error at most \<open>2\<^sup>-\<^sup>5\<^sup>3\<close> keep their order as long as
  the indices stay below \<open>2\<^sup>5\<^sup>2\<close>.
\<close>

lemma rounded_products_increase:
  fixes s :: real and f :: "real \<Rightarrow> real"
  assumes s: "0 < s" and ij: "i < j" and j: "j < N" and N: "N \<le> 2 ^ 52"
    and ri: "\<bar>f (real i * s) - real i * s\<bar> \<le> real i * s / 2 ^ 53"
    and rj: "\<bar>f (real j * s) - real j * s\<bar> \<le> real j * s / 2 ^ 53"
  shows "f (real i * s) < f (real j * s)"
proof -
  have "i + j < 2 ^ 53"
    using ij j N by simp
  then have "real (i + j) < 2 ^ 53"
    by (metis of_nat_less_iff of_nat_numeral of_nat_power)
  then have "(real i + real j) / 2 ^ 53 < 1"
    by simp
  moreover have "1 \<le> real j - real i"
    using ij by simp
  ultimately have "(real i + real j) / 2 ^ 53 < real j - real i"
    by linarith
  then have "s * ((real i + real j) / 2 ^ 53) < s * (real j - real i)"
    using s by (rule mult_strict_left_mono)
  then have "real i * s + real i * s / 2 ^ 53 < real j * s - real j * s / 2 ^ 53"
    by (simp add: algebra_simps add_divide_distrib)
  moreover have "f (real i * s) \<le> real i * s + real i * s / 2 ^ 53"
    using ri by linarith
  moreover have "real j * s - real j * s / 2 ^ 53 \<le> f (real j * s)"
    using rj by linarith
  ultimately show ?thesis
    by linarith
qed

subsection \<open>The loop of \<^verbatim>\<open>bootstrap\<close> and two concrete runs\<close>

lemma bootstrap_for_length:
  "fst (bootstrap_for L G js hlist w) = Inr hlist' \<Longrightarrow> length hlist' = length hlist + length js"
proof (induction js arbitrary: hlist w)
  case Nil
  then show ?case by (simp add: ret_def)
next
  case (Cons i rest)
  from Cons.prems obtain h w1 where
    "fst (bootstrap_for L G rest (hlist @ [h]) w1) = Inr hlist'"
    by (auto simp: bnd_def split: prod.splits sum.splits)
  from Cons.IH [OF this] show ?case by simp
qed

lemma count_sawtooth: "length (argrelmax (map snd (sawtooth n))) = n"
  by (simp only: argrelmax_sawtooth filter_odd_upt)

text \<open>
  The runs use a library whose curves, for every sample, show three modes below bandwidth
  \<open>1.84\<close>, two from there to \<open>5\<close> and one above.
\<close>

lemma bootstrap_for_run:
  "fst (bootstrap_for (profile_libs (\<lambda>h. if h < 1.84 then 3 else if h < 5 then 2 else 1))
      notebook_globals [0] [] fresh) = Inr [1.84]"
  by (simp add: bnd_def py_print_def lookup_global_def notebook_globals_def ret_def raise_def
      find_critical_value_def binary_search_def lift_def np_arange_def bs_init_def
      bs_while_go bs_while_stop bs_body_def Let_def find_maxima_run profile_libs_def
      count_sawtooth py_index_def py_int_half_def gaussian_kde_resample_def fresh_def)

lemma find_critical_value_run:
  "fst (find_critical_value (profile_libs (\<lambda>h. if h < 1.84 then 3 else if h < 5 then 2 else 1))
      [1, 2, 3] 10 0.5 1 fresh) = Inr 5"
  by (simp add: bnd_def ret_def
      find_critical_value_def binary_search_def lift_def np_arange_def bs_init_def
      bs_while_go bs_while_stop bs_body_def Let_def find_maxima_run profile_libs_def
      count_sawtooth py_index_def py_int_half_def gaussian_kde_resample_def fresh_def)

section \<open>The claims\<close>

text \<open>
  In the statements below \<open>L\<close> is the library the notebook runs against, \<open>w\<close> the
  interpreter state before the call, \<open>fst\<close> of a run its result or exception. The
  concrete runs use the stand-in library \<open>profile_libs m\<close>, which shows \<open>m h\<close> modes at
  bandwidth \<open>h\<close>.
\<close>

subsection \<open>C1: the check at the start of the grid\<close>

text \<open>
  C1 as claimed: when the probed index is \<open>0\<close> and the mode count at \<open>grid[0]\<close> is \<open>k\<close>,
  the position before the grid start counts as "not \<open>k\<close>" and \<open>grid[0]\<close> is accepted at
  once. The code reads \<^verbatim>\<open>searchList[midpoint-1]\<close>, that is \<^verbatim>\<open>searchList[-1]\<close>, which Python
  resolves to the last grid point: the pass compares with the mode count there, and
  when that count is \<open>k\<close> too it sets \<open>end = -1\<close> and \<open>grid[0]\<close> is not accepted.
\<close>

theorem grid_start_is_compared_with_last_point:
  assumes "grid \<noteq> []" and "py_int_half (start v + end' v) = 0"
    and "mode_count L data (grid ! 0) = Inr k"
  shows "py_index grid (0 - 1) = Inr (last grid) \<and>
         fst (bs_body L data grid k v w) =
           (case mode_count L data (last grid) of
              Inl e \<Rightarrow> Inl e
            | Inr c \<Rightarrow>
                if c = k then Inr (v\<lparr>end' := - 1\<rparr>)
                else Inr (v\<lparr>found_h := grid ! 0, found := True\<rparr>))"
proof -
  note half = assms(2)
  have first: "py_index grid 0 = Inr (grid ! 0)"
    using assms(1) by (simp add: py_index_def)
  have len: "Suc 0 \<le> length grid"
    using assms(1) by (cases grid) simp_all
  then have "nat (int (length grid) + (0 - 1)) = length grid - 1"
    by (simp add: nat_diff_distrib)
  with len have prev: "py_index grid (0 - 1) = Inr (last grid)"
    using assms(1) by (simp add: py_index_def last_conv_nth)
  from prev show ?thesis
    using assms(3) by (simp add: bs_body_result half first split: sum.splits)
qed

text \<open>
  A sample showing \<open>k = 2\<close> modes at each bandwidth of the grid \<open>0, 1, 2\<close>: the search
  probes index \<open>1\<close>, moves down to index \<open>0\<close>, compares with grid point \<open>2\<close>, and ends
  without a result, returning \<open>12345\<close> where C1 has it return \<open>grid[0] = 0\<close>.
\<close>

theorem grid_start_is_compared_with_last_point_witness:
  "np_arange (profile_libs (\<lambda>h. 2)) 3 1 = Inr [0, 1, 2] \<and>
   mode_count (profile_libs (\<lambda>h. 2)) [1, 2] 0 = Inr 2 \<and>
   py_index [0, 1, 2 :: real] (0 - 1) = Inr 2 \<and>
   fst (bs_body (profile_libs (\<lambda>h. 2)) [1, 2] [0, 1, 2] 2
         \<lparr>start = 0, end' = 0, found = False, found_h = 12345\<rparr> fresh)
     = Inr \<lparr>start = 0, end' = - 1, found = False, found_h = 12345\<rparr> \<and>
   fst (bs_while (profile_libs (\<lambda>h. 2)) [1, 2] [0, 1, 2] 2 (bs_init [0, 1, 2]) fresh)
     = Inr \<lparr>start = 0, end' = - 1, found = False, found_h = 12345\<rparr> \<and>
   fst (binary_search (profile_libs (\<lambda>h. 2)) [1, 2] 3 1 2 fresh) = Inr 12345"
proof -
  let ?L = "profile_libs (\<lambda>h. 2 :: nat)"
  let ?grid = "[0, 1, 2 :: real]"
  let ?v = "\<lparr>start = 0, end' = 0, found = False, found_h = 12345\<rparr>"
  have grid: "np_arange ?L 3 1 = Inr ?grid"
    by (simp add: np_arange_def profile_libs_def upt_conv_Cons)
  have count: "mode_count ?L [1, 2] 0 = Inr 2"
    by (simp add: mode_count_profile)
  have pre: "?grid \<noteq> []" "py_int_half (start ?v + end' ?v) = 0"
    "mode_count ?L [1, 2] (?grid ! 0) = Inr 2"
    by (simp_all add: mode_count_profile py_int_half_def)
  note T = grid_start_is_compared_with_last_point [OF pre, of fresh]
  from T have prev: "py_index ?grid (0 - 1) = Inr 2"
    by simp
  from T have body: "fst (bs_body ?L [1, 2] ?grid 2 ?v fresh) = Inr (?v\<lparr>end' := - 1\<rparr>)"
    by (simp add: mode_count_profile)
  have loop: "fst (bs_while ?L [1, 2] ?grid 2 (bs_init ?grid) fresh)
      = Inr \<lparr>start = 0, end' = - 1, found = False, found_h = 12345\<rparr>"
    by (simp add: bs_while_fst bs_body_result mode_count_profile py_index_def py_int_half_def
        bs_init_def)
  from grid loop have "fst (binary_search ?L [1, 2] 3 1 2 fresh) = Inr 12345"
    by (simp add: binary_search_result)
  with grid count prev body loop show ?thesis
    by simp
qed

subsection \<open>C2: the result of an exhausted search\<close>

text \<open>
  C2 as claimed: an exhausted search returns a \<open>NotFound\<close> outcome that no bandwidth can
  be mistaken for. The function returns the number in \<open>found_h\<close>, which starts as
  \<open>12345\<close>. On the grid \<open>0, 12345\<close> (\<open>searchMax = 24690\<close>, \<open>searchStep = 12345\<close>) with
  counts \<open>2, 1\<close>, the search for \<open>k = 3\<close> exhausts its range and returns \<open>12345\<close>; the
  search for \<open>k = 1\<close> finds the grid point \<open>12345\<close> and returns \<open>12345\<close> too.
  (Python compares the int \<open>12345\<close> and the float \<open>12345.0\<close> as equal.)
\<close>

theorem not_found_is_a_grid_value_counterexample:
  "np_arange (profile_libs (\<lambda>h. if h < 12345 then 2 else 1)) 24690 12345 = Inr [0, 12345] \<and>
   fst (bs_while (profile_libs (\<lambda>h. if h < 12345 then 2 else 1)) [1, 2] [0, 12345] 3
         (bs_init [0, 12345]) fresh)
     = Inr \<lparr>start = 0, end' = - 1, found = False, found_h = 12345\<rparr> \<and>
   fst (binary_search (profile_libs (\<lambda>h. if h < 12345 then 2 else 1)) [1, 2] 24690 12345 3 fresh)
     = Inr 12345 \<and>
   fst (bs_while (profile_libs (\<lambda>h. if h < 12345 then 2 else 1)) [1, 2] [0, 12345] 1
         (bs_init [0, 12345]) fresh)
     = Inr \<lparr>start = 1, end' = 1, found = True, found_h = 12345\<rparr> \<and>
   fst (binary_search (profile_libs (\<lambda>h. if h < 12345 then 2 else 1)) [1, 2] 24690 12345 1 fresh)
     = Inr 12345"
proof -
  let ?L = "profile_libs (\<lambda>h. if h < 12345 then 2 else (1 :: nat))"
  have grid: "np_arange ?L 24690 12345 = Inr [0, 12345]"
    by (simp add: np_arange_def profile_libs_def upt_conv_Cons)
  have miss: "fst (bs_while ?L [1, 2] [0, 12345] 3 (bs_init [0, 12345]) fresh)
      = Inr \<lparr>start = 0, end' = - 1, found = False, found_h = 12345\<rparr>"
    by (simp add: bs_while_fst bs_body_result mode_count_profile py_index_def py_int_half_def
        bs_init_def)
  have hit: "fst (bs_while ?L [1, 2] [0, 12345] 1 (bs_init [0, 12345]) fresh)
      = Inr \<lparr>start = 1, end' = 1, found = True, found_h = 12345\<rparr>"
    by (simp add: bs_while_fst bs_body_result mode_count_profile py_index_def py_int_half_def
        bs_init_def)
  from grid miss hit show ?thesis
    by (simp add: binary_search_result)
qed

text \<open>
  C2, amended. If the loop of \<^verbatim>\<open>binary_search\<close> ends without \<open>found\<close> being set, the
  index range is exhausted (\<open>end < start\<close>) and the function returns the number \<open>12345\<close>,
  the initial value of \<open>found_h\<close>.
\<close>

theorem exhausted_search_returns_12345:
  assumes "np_arange L searchMax searchStep = Inr grid"
    and "fst (bs_while L data grid k (bs_init grid) w) = Inr v"
    and "\<not> found v"
  shows "end' v < start v \<and> fst (binary_search L data searchMax searchStep k w) = Inr 12345"
  using bs_while_final [OF assms(2)] assms(1,2,3)
  by (simp add: binary_search_result)

text \<open>The exhausted search of the example above.\<close>

theorem exhausted_search_returns_12345_witness:
  "np_arange (profile_libs (\<lambda>h. if h < 12345 then 2 else 1)) 24690 12345 = Inr [0, 12345] \<and>
   fst (bs_while (profile_libs (\<lambda>h. if h < 12345 then 2 else 1)) [1, 2] [0, 12345] 3
         (bs_init [0, 12345]) fresh)
     = Inr \<lparr>start = 0, end' = - 1, found = False, found_h = 12345\<rparr> \<and>
   - 1 < (0 :: int) \<and>
   fst (binary_search (profile_libs (\<lambda>h. if h < 12345 then 2 else 1)) [1, 2] 24690 12345 3 fresh)
     = Inr 12345"
proof -
  let ?L = "profile_libs (\<lambda>h. if h < 12345 then 2 else (1 :: nat))"
  let ?v = "\<lparr>start = 0, end' = - 1, found = False, found_h = 12345\<rparr>"
  have grid: "np_arange ?L 24690 12345 = Inr [0, 12345]"
    by (simp add: np_arange_def profile_libs_def upt_conv_Cons)
  have loop: "fst (bs_while ?L [1, 2] [0, 12345] 3 (bs_init [0, 12345]) fresh) = Inr ?v"
    by (simp add: bs_while_fst bs_body_result mode_count_profile py_index_def py_int_half_def
        bs_init_def)
  have nf: "\<not> found ?v"
    by simp
  from exhausted_search_returns_12345 [OF grid loop nf]
  have "end' ?v < start ?v" "fst (binary_search ?L [1, 2] 24690 12345 3 fresh) = Inr 12345"
    by blast+
  then have "- 1 < (0 :: int)" "fst (binary_search ?L [1, 2] 24690 12345 3 fresh) = Inr 12345"
    by simp_all
  with grid loop show ?thesis
    by blast
qed

subsection \<open>C3: what \<^verbatim>\<open>bootstrap\<close> returns\<close>

text \<open>
  C3 as claimed: \<^verbatim>\<open>bootstrap\<close> returns the sequence of the critical bandwidths of its
  iterations, of length \<open>num_simulations\<close>. The loop does collect one value per
  iteration in \<open>hlist\<close>. The statement \<^verbatim>\<open>return hlist, modesList\<close> then reads the name
  \<open>modesList\<close>, which nothing binds: a call that gets through the loop raises
  \<open>NameError\<close>, a call that does not raises the loop's exception, and no call returns.
\<close>

theorem bootstrap_raises_NameError:
  "fst (bootstrap L notebook_globals data searchMax searchStep k num_simulations w) =
     (case fst (bootstrap_for L notebook_globals [0..num_simulations - 1] [] w) of
        Inl e \<Rightarrow> Inl e
      | Inr hlist \<Rightarrow> Inl (NameError ''modesList'')) \<and>
   (\<forall>hlist. fst (bootstrap_for L notebook_globals [0..num_simulations - 1] [] w) = Inr hlist \<longrightarrow>
      length hlist = nat num_simulations)"
proof -
  have "length hlist = nat num_simulations"
    if "fst (bootstrap_for L notebook_globals [0..num_simulations - 1] [] w) = Inr hlist"
    for hlist
    using bootstrap_for_length [OF that] by simp
  moreover have "fst (bootstrap L notebook_globals data searchMax searchStep k num_simulations w) =
     (case fst (bootstrap_for L notebook_globals [0..num_simulations - 1] [] w) of
        Inl e \<Rightarrow> Inl e
      | Inr hlist \<Rightarrow> Inl (NameError ''modesList''))"
    by (simp add: bootstrap_def bnd_def lookup_global_def notebook_globals_def raise_def
        split: prod.splits sum.splits)
  ultimately show ?thesis by blast
qed

text \<open>
  One iteration on a library whose curves for every sample show three modes below
  bandwidth \<open>1.84\<close>, two from there to \<open>5\<close> and one above.
\<close>

theorem bootstrap_raises_NameError_witness:
  "fst (bootstrap_for (profile_libs (\<lambda>h. if h < 1.84 then 3 else if h < 5 then 2 else 1))
      notebook_globals [0..1 - 1] [] fresh) = Inr [1.84] \<and>
   length [1.84 :: real] = nat 1 \<and>
   fst (bootstrap (profile_libs (\<lambda>h. if h < 1.84 then 3 else if h < 5 then 2 else 1))
      notebook_globals chondrites 10 0.01 2 1 fresh) = Inl (NameError ''modesList'')"
proof -
  let ?L = "profile_libs (\<lambda>h. if h < 1.84 then 3 else if h < 5 then 2 else (1 :: nat))"
  have loop: "fst (bootstrap_for ?L notebook_globals [0..1 - 1] [] fresh) = Inr [1.84]"
    using bootstrap_for_run by simp
  note T = bootstrap_raises_NameError [of ?L chondrites 10 "0.01" 2 1 fresh]
  from T loop have "length [1.84 :: real] = nat 1"
    by blast
  moreover from T have "fst (bootstrap ?L notebook_globals chondrites 10 0.01 2 1 fresh) =
     (case fst (bootstrap_for ?L notebook_globals [0..1 - 1] [] fresh) of
        Inl e \<Rightarrow> Inl e
      | Inr hlist \<Rightarrow> Inl (NameError ''modesList''))"
    by blast
  then have "fst (bootstrap ?L notebook_globals chondrites 10 0.01 2 1 fresh) =
      Inl (NameError ''modesList'')"
    by (simp only: loop sum.case)
  ultimately show ?thesis
    using loop by blast
qed

subsection \<open>C4: what the iterations of \<^verbatim>\<open>bootstrap\<close> search\<close>

text \<open>
  C4 as claimed: every iteration runs the search on the sample and with the
  \<open>searchMax\<close>, \<open>searchStep\<close> and \<open>k\<close> passed to \<^verbatim>\<open>bootstrap\<close>. The loop body calls
  \<^verbatim>\<open>find_critical_value(chondrites, 10, 0.01, 2)\<close>: the global data set and fixed
  parameters. The four arguments are never read, and the outcome of \<^verbatim>\<open>bootstrap\<close> (result
  and final state) is the same whatever they are.
\<close>

theorem bootstrap_ignores_its_arguments:
  "bootstrap L G data searchMax searchStep k num_simulations w =
   bootstrap L G data' searchMax' searchStep' k' num_simulations w"
  by (simp add: bootstrap_def)

text \<open>
  Called with the sample \<open>1, 2, 3\<close>, \<open>searchMax = 10\<close>, \<open>searchStep = 0.5\<close> and \<open>k = 1\<close>, for
  which \<^verbatim>\<open>find_critical_value\<close> gives \<open>5\<close>, the iteration records \<open>1.84\<close>, the critical
  bandwidth of the chondrite search for two modes.
\<close>

theorem bootstrap_ignores_its_arguments_witness:
  "fst (find_critical_value (profile_libs (\<lambda>h. if h < 1.84 then 3 else if h < 5 then 2 else 1))
      [1, 2, 3] 10 0.5 1 fresh) = Inr 5 \<and>
   fst (bootstrap_for (profile_libs (\<lambda>h. if h < 1.84 then 3 else if h < 5 then 2 else 1))
      notebook_globals [0..1 - 1] [] fresh) = Inr [1.84] \<and>
   bootstrap (profile_libs (\<lambda>h. if h < 1.84 then 3 else if h < 5 then 2 else 1))
      notebook_globals [1, 2, 3] 10 0.5 1 1 fresh =
   bootstrap (profile_libs (\<lambda>h. if h < 1.84 then 3 else if h < 5 then 2 else 1))
      notebook_globals chondrites 10 0.01 2 1 fresh"
proof -
  let ?L = "profile_libs (\<lambda>h. if h < 1.84 then 3 else if h < 5 then 2 else (1 :: nat))"
  have "fst (bootstrap_for ?L notebook_globals [0..1 - 1] [] fresh) = Inr [1.84]"
    using bootstrap_for_run by simp
  with find_critical_value_run
    bootstrap_ignores_its_arguments [of ?L notebook_globals "[1, 2, 3]" 10 "0.5" 1 1 fresh
      chondrites 10 "0.01" 2]
  show ?thesis by blast
qed

subsection \<open>C5: the found bandwidth is minimal on the grid\<close>

text \<open>
  C5. Whenever the loop of \<^verbatim>\<open>binary_search\<close> ends with \<open>found\<close> set, the function returns
  the found bandwidth \<open>h\<close>; \<open>h\<close> is a grid point \<open>grid[mid]\<close>, \<^verbatim>\<open>find_maxima\<close> counts exactly
  \<open>k\<close> modes at \<open>h\<close>, and at the previous grid point \<open>grid[mid - 1]\<close>, the one a search step
  below \<open>h\<close>, it returns a count different from \<open>k\<close>. The first grid point has no
  previous grid point. This holds for every sample, grid and library, whether or not
  the mode count is monotone in the bandwidth.
\<close>

theorem found_bandwidth_is_minimal_on_grid:
  assumes "np_arange L searchMax searchStep = Inr grid"
    and "fst (bs_while L data grid k (bs_init grid) w) = Inr v"
    and "found v"
  shows "fst (binary_search L data searchMax searchStep k w) = Inr (found_h v) \<and>
         (\<exists>mid. 0 \<le> mid \<and> mid < int (length grid) \<and> found_h v = grid ! nat mid \<and>
            mode_count L data (grid ! nat mid) = Inr k \<and>
            (0 < mid \<longrightarrow>
               (\<exists>c. mode_count L data (grid ! nat (mid - 1)) = Inr c \<and> c \<noteq> k)))"
proof -
  have "fst (binary_search L data searchMax searchStep k w) = Inr (found_h v)"
    by (simp add: binary_search_result assms(1,2))
  with bs_while_final [OF assms(2)] assms(3) show ?thesis
    by simp
qed

text \<open>
  A search that finds: the grid \<open>0, 1, \<dots>, 5\<close>, three modes below bandwidth \<open>2\<close>, two from
  there to \<open>4\<close>, one above, and \<open>k = 2\<close>. The search returns \<open>2\<close>, the grid point of index
  \<open>2\<close>; the count there is \<open>2\<close> and the count at the grid point before is not.
\<close>

theorem found_bandwidth_is_minimal_on_grid_witness:
  "np_arange (profile_libs (\<lambda>h. if h < 2 then 3 else if h < 4 then 2 else 1)) 6 1
     = Inr [0, 1, 2, 3, 4, 5] \<and>
   fst (bs_while (profile_libs (\<lambda>h. if h < 2 then 3 else if h < 4 then 2 else 1)) [1, 2]
         [0, 1, 2, 3, 4, 5] 2 (bs_init [0, 1, 2, 3, 4, 5]) fresh)
     = Inr \<lparr>start = 0, end' = 5, found = True, found_h = 2\<rparr> \<and>
   fst (binary_search (profile_libs (\<lambda>h. if h < 2 then 3 else if h < 4 then 2 else 1)) [1, 2]
         6 1 2 fresh) = Inr 2 \<and>
   [0, 1, 2, 3, 4, 5 :: real] ! nat 2 = 2 \<and>
   mode_count (profile_libs (\<lambda>h. if h < 2 then 3 else if h < 4 then 2 else 1)) [1, 2]
      ([0, 1, 2, 3, 4, 5] ! nat 2) = Inr 2 \<and>
   (\<exists>c. mode_count (profile_libs (\<lambda>h. if h < 2 then 3 else if h < 4 then 2 else 1)) [1, 2]
           ([0, 1, 2, 3, 4, 5] ! nat (2 - 1)) = Inr c \<and> c \<noteq> 2)"
proof -
  let ?L = "profile_libs (\<lambda>h. if h < 2 then 3 else if h < 4 then 2 else (1 :: nat))"
  let ?grid = "[0, 1, 2, 3, 4, 5 :: real]"
  let ?v = "\<lparr>start = 0, end' = 5, found = True, found_h = 2\<rparr>"
  have grid: "np_arange ?L 6 1 = Inr ?grid"
    by (simp add: np_arange_def profile_libs_def upt_conv_Cons)
  have loop: "fst (bs_while ?L [1, 2] ?grid 2 (bs_init ?grid) fresh) = Inr ?v"
    by (simp add: bs_while_fst bs_body_result mode_count_profile py_index_def py_int_half_def
        bs_init_def)
  have f: "found ?v"
    by simp
  note T = found_bandwidth_is_minimal_on_grid [OF grid loop f]
  from T have ret: "fst (binary_search ?L [1, 2] 6 1 2 fresh) = Inr (found_h ?v)"
    by blast
  from T obtain mid where mid: "0 \<le> mid" "mid < int (length ?grid)"
    "found_h ?v = ?grid ! nat mid" "mode_count ?L [1, 2] (?grid ! nat mid) = Inr 2"
    "0 < mid \<longrightarrow> (\<exists>c. mode_count ?L [1, 2] (?grid ! nat (mid - 1)) = Inr c \<and> c \<noteq> 2)"
    by blast
  from mid(1,2) have "nat mid < 6"
    by simp
  with mid(3) have "nat mid = 2"
    by (auto simp: nth_Cons' split: if_splits)
  with mid(1) have m2: "mid = 2"
    by simp
  from mid(4,5) have "mode_count ?L [1, 2] (?grid ! nat 2) = Inr 2"
    "\<exists>c. mode_count ?L [1, 2] (?grid ! nat (2 - 1)) = Inr c \<and> c \<noteq> 2"
    unfolding m2 by simp_all
  with grid loop ret show ?thesis
    by simp
qed

subsection \<open>C6: the step policy of the search\<close>

text \<open>
  C6. \<^verbatim>\<open>binary_search\<close> is its loop run from \<open>start = 0\<close>, \<open>end = N - 1\<close>, \<open>found\<close> false, on
  the grid of length \<open>N\<close>. Whenever the loop is at a state with \<open>0 \<le> start \<le> end < N\<close> and
  \<open>found\<close> false, it probes \<open>mid = (start + end) div 2\<close> and goes on as specified: when the
  mode count at \<open>grid[mid]\<close> exceeds \<open>k\<close>, the loop continues from the same state with
  \<open>start = mid + 1\<close>; when it is below \<open>k\<close>, with \<open>end = mid - 1\<close>; when it equals \<open>k\<close> and
  the previous grid point \<open>grid[mid - 1]\<close> yields \<open>k\<close> too, with \<open>end = mid - 1\<close>. There is
  a previous grid point when \<open>0 < mid\<close>; what the code does at \<open>mid = 0\<close> is the subject of
  C1.
\<close>

theorem binary_search_loop_policy:
  assumes "0 \<le> start v" and "start v \<le> end' v" and "end' v < int (length grid)"
    and "\<not> found v" and "mid = (start v + end' v) div 2"
  shows "(np_arange L searchMax searchStep = Inr grid \<longrightarrow>
            fst (binary_search L data searchMax searchStep k w)
              = map_sum id found_h (fst (bs_while L data grid k (bs_init grid) w)) \<and>
            bs_init grid
              = \<lparr>start = 0, end' = int (length grid) - 1, found = False, found_h = 12345\<rparr>) \<and>
         (\<forall>c. mode_count L data (grid ! nat mid) = Inr c \<and> k < c \<longrightarrow>
            fst (bs_while L data grid k v w)
              = fst (bs_while L data grid k (v\<lparr>start := mid + 1\<rparr>) w)) \<and>
         (\<forall>c. mode_count L data (grid ! nat mid) = Inr c \<and> c < k \<longrightarrow>
            fst (bs_while L data grid k v w)
              = fst (bs_while L data grid k (v\<lparr>end' := mid - 1\<rparr>) w)) \<and>
         (0 < mid \<and> mode_count L data (grid ! nat mid) = Inr k \<and>
          mode_count L data (grid ! nat (mid - 1)) = Inr k \<longrightarrow>
            fst (bs_while L data grid k v w)
              = fst (bs_while L data grid k (v\<lparr>end' := mid - 1\<rparr>) w))"
proof -
  have guard: "start v \<le> end' v \<and> found v = False"
    using assms by simp
  have half: "py_int_half (start v + end' v) = mid"
    using assms by (simp add: py_int_half_def)
  have m: "0 \<le> mid" "mid < int (length grid)"
    using assms by simp_all
  have idx: "py_index grid mid = Inr (grid ! nat mid)"
    using m by (simp add: py_index_def)
  have unfold: "\<And>u. fst (bs_body L data grid k v w) = Inr u \<Longrightarrow>
      fst (bs_while L data grid k v w) = fst (bs_while L data grid k u w)"
    using guard by (subst bs_while_fst) simp
  have link: "np_arange L searchMax searchStep = Inr grid \<longrightarrow>
            fst (binary_search L data searchMax searchStep k w)
              = map_sum id found_h (fst (bs_while L data grid k (bs_init grid) w)) \<and>
            bs_init grid
              = \<lparr>start = 0, end' = int (length grid) - 1, found = False, found_h = 12345\<rparr>"
    by (simp add: binary_search_result bs_init_def)
  have above: "fst (bs_while L data grid k v w)
              = fst (bs_while L data grid k (v\<lparr>start := mid + 1\<rparr>) w)"
    if "mode_count L data (grid ! nat mid) = Inr c" "k < c" for c
    using that by (intro unfold) (simp add: bs_body_result half idx)
  have below: "fst (bs_while L data grid k v w)
              = fst (bs_while L data grid k (v\<lparr>end' := mid - 1\<rparr>) w)"
    if "mode_count L data (grid ! nat mid) = Inr c" "c < k" for c
    using that by (intro unfold) (simp add: bs_body_result half idx)
  have equal: "fst (bs_while L data grid k v w)
              = fst (bs_while L data grid k (v\<lparr>end' := mid - 1\<rparr>) w)"
    if "0 < mid" "mode_count L data (grid ! nat mid) = Inr k"
      "mode_count L data (grid ! nat (mid - 1)) = Inr k"
  proof -
    have "py_index grid (mid - 1) = Inr (grid ! nat (mid - 1))"
      using that(1) m by (simp add: py_index_def)
    with that show ?thesis
      by (intro unfold) (simp add: bs_body_result half idx)
  qed
  from link above below equal show ?thesis
    by blast
qed

text \<open>
  A search that takes each of the three steps: the grid \<open>0, 1, \<dots>, 13\<close>, three modes below
  bandwidth \<open>3\<close>, two from there to \<open>6\<close>, one above, and \<open>k = 2\<close>. The loop starts at
  \<open>(start, end) = (0, 13)\<close> and probes index \<open>6\<close> (one mode, \<open>end = 5\<close>), index \<open>2\<close> (three
  modes, \<open>start = 3\<close>), index \<open>4\<close> (two modes, and two at index \<open>3\<close>: \<open>end = 3\<close>) and index
  \<open>3\<close>, which it returns.
\<close>

theorem binary_search_loop_policy_witness:
  "np_arange (profile_libs (\<lambda>h. if h < 3 then 3 else if h < 6 then 2 else 1)) 14 1
     = Inr (map real [0..<14]) \<and>
   bs_init (map real [0..<14]) = \<lparr>start = 0, end' = 13, found = False, found_h = 12345\<rparr> \<and>
   fst (binary_search (profile_libs (\<lambda>h. if h < 3 then 3 else if h < 6 then 2 else 1)) [1, 2]
          14 1 2 fresh)
     = map_sum id found_h
        (fst (bs_while (profile_libs (\<lambda>h. if h < 3 then 3 else if h < 6 then 2 else 1)) [1, 2]
               (map real [0..<14]) 2
               \<lparr>start = 0, end' = 13, found = False, found_h = 12345\<rparr> fresh)) \<and>
   fst (bs_while (profile_libs (\<lambda>h. if h < 3 then 3 else if h < 6 then 2 else 1)) [1, 2]
          (map real [0..<14]) 2 \<lparr>start = 0, end' = 13, found = False, found_h = 12345\<rparr> fresh)
     = fst (bs_while (profile_libs (\<lambda>h. if h < 3 then 3 else if h < 6 then 2 else 1)) [1, 2]
          (map real [0..<14]) 2 \<lparr>start = 0, end' = 5, found = False, found_h = 12345\<rparr> fresh) \<and>
   fst (bs_while (profile_libs (\<lambda>h. if h < 3 then 3 else if h < 6 then 2 else 1)) [1, 2]
          (map real [0..<14]) 2 \<lparr>start = 0, end' = 5, found = False, found_h = 12345\<rparr> fresh)
     = fst (bs_while (profile_libs (\<lambda>h. if h < 3 then 3 else if h < 6 then 2 else 1)) [1, 2]
          (map real [0..<14]) 2 \<lparr>start = 3, end' = 5, found = False, found_h = 12345\<rparr> fresh) \<and>
   fst (bs_while (profile_libs (\<lambda>h. if h < 3 then 3 else if h < 6 then 2 else 1)) [1, 2]
          (map real [0..<14]) 2 \<lparr>start = 3, end' = 5, found = False, found_h = 12345\<rparr> fresh)
     = fst (bs_while (profile_libs (\<lambda>h. if h < 3 then 3 else if h < 6 then 2 else 1)) [1, 2]
          (map real [0..<14]) 2 \<lparr>start = 3, end' = 3, found = False, found_h = 12345\<rparr> fresh) \<and>
   fst (bs_while (profile_libs (\<lambda>h. if h < 3 then 3 else if h < 6 then 2 else 1)) [1, 2]
          (map real [0..<14]) 2 \<lparr>start = 3, end' = 3, found = False, found_h = 12345\<rparr> fresh)
     = Inr \<lparr>start = 3, end' = 3, found = True, found_h = 3\<rparr> \<and>
   fst (binary_search (profile_libs (\<lambda>h. if h < 3 then 3 else if h < 6 then 2 else 1)) [1, 2]
          14 1 2 fresh) = Inr 3"
proof -
  let ?L = "profile_libs (\<lambda>h. if h < 3 then 3 else if h < 6 then 2 else (1 :: nat))"
  let ?G = "map real [0..<14]"
  let ?v0 = "\<lparr>start = 0, end' = 13, found = False, found_h = 12345\<rparr>"
  let ?v1 = "\<lparr>start = 0, end' = 5, found = False, found_h = 12345\<rparr>"
  let ?v2 = "\<lparr>start = 3, end' = 5, found = False, found_h = 12345\<rparr>"
  let ?v3 = "\<lparr>start = 3, end' = 3, found = False, found_h = 12345\<rparr>"
  have grid: "np_arange ?L 14 1 = Inr ?G"
    by (simp add: np_arange_def profile_libs_def)
  have c6: "mode_count ?L [1, 2] (?G ! nat 6) = Inr 1" "(1 :: int) < 2"
    and c2: "mode_count ?L [1, 2] (?G ! nat 2) = Inr 3" "(2 :: int) < 3"
    and c4: "(0 :: int) < 4" "mode_count ?L [1, 2] (?G ! nat 4) = Inr 2"
      "mode_count ?L [1, 2] (?G ! nat (4 - 1)) = Inr 2"
    by (simp_all add: mode_count_profile)
  have T0: "0 \<le> start ?v0" "start ?v0 \<le> end' ?v0" "end' ?v0 < int (length ?G)"
    "\<not> found ?v0" "6 = (start ?v0 + end' ?v0) div 2"
    by simp_all
  have T1: "0 \<le> start ?v1" "start ?v1 \<le> end' ?v1" "end' ?v1 < int (length ?G)"
    "\<not> found ?v1" "2 = (start ?v1 + end' ?v1) div 2"
    by simp_all
  have T2: "0 \<le> start ?v2" "start ?v2 \<le> end' ?v2" "end' ?v2 < int (length ?G)"
    "\<not> found ?v2" "4 = (start ?v2 + end' ?v2) div 2"
    by simp_all
  note P0 = binary_search_loop_policy [OF T0, where L = "?L" and data = "[1, 2]" and k = 2
      and w = fresh and searchMax = 14 and searchStep = 1]
  note P1 = binary_search_loop_policy [OF T1, where L = "?L" and data = "[1, 2]" and k = 2
      and w = fresh and searchMax = 14 and searchStep = 1]
  note P2 = binary_search_loop_policy [OF T2, where L = "?L" and data = "[1, 2]" and k = 2
      and w = fresh and searchMax = 14 and searchStep = 1]
  from P0 grid have "bs_init ?G
      = \<lparr>start = 0, end' = int (length ?G) - 1, found = False, found_h = 12345\<rparr>"
    and link: "fst (binary_search ?L [1, 2] 14 1 2 fresh)
                 = map_sum id found_h (fst (bs_while ?L [1, 2] ?G 2 (bs_init ?G) fresh))"
    by blast+
  then have init: "bs_init ?G = ?v0"
    by simp
  from P0 c6 have "fst (bs_while ?L [1, 2] ?G 2 ?v0 fresh)
      = fst (bs_while ?L [1, 2] ?G 2 (?v0\<lparr>end' := 6 - 1\<rparr>) fresh)"
    by blast
  then have s0: "fst (bs_while ?L [1, 2] ?G 2 ?v0 fresh) = fst (bs_while ?L [1, 2] ?G 2 ?v1 fresh)"
    by simp
  from P1 c2 have "fst (bs_while ?L [1, 2] ?G 2 ?v1 fresh)
      = fst (bs_while ?L [1, 2] ?G 2 (?v1\<lparr>start := 2 + 1\<rparr>) fresh)"
    by blast
  then have s1: "fst (bs_while ?L [1, 2] ?G 2 ?v1 fresh) = fst (bs_while ?L [1, 2] ?G 2 ?v2 fresh)"
    by simp
  from P2 c4 have "fst (bs_while ?L [1, 2] ?G 2 ?v2 fresh)
      = fst (bs_while ?L [1, 2] ?G 2 (?v2\<lparr>end' := 4 - 1\<rparr>) fresh)"
    by blast
  then have s2: "fst (bs_while ?L [1, 2] ?G 2 ?v2 fresh) = fst (bs_while ?L [1, 2] ?G 2 ?v3 fresh)"
    by simp
  have s3: "fst (bs_while ?L [1, 2] ?G 2 ?v3 fresh)
      = Inr \<lparr>start = 3, end' = 3, found = True, found_h = 3\<rparr>"
    by (simp add: bs_while_fst bs_body_result mode_count_profile py_index_def py_int_half_def)
  from link init s0 s1 s2 s3 have ret: "fst (binary_search ?L [1, 2] 14 1 2 fresh) = Inr 3"
    by simp
  from link init have link': "fst (binary_search ?L [1, 2] 14 1 2 fresh)
                 = map_sum id found_h (fst (bs_while ?L [1, 2] ?G 2 ?v0 fresh))"
    by simp
  from grid init link' s0 s1 s2 s3 ret show ?thesis
    by blast
qed

subsection \<open>C7: \<^verbatim>\<open>find_maxima\<close> at a bandwidth that is not positive\<close>

text \<open>
  C7 as claimed: at a bandwidth \<open>h \<le> 0\<close> \<^verbatim>\<open>find_maxima\<close> signals an invalid-bandwidth
  error instead of returning a mode report. The function never looks at \<open>h\<close>: it hands
  it to \<^verbatim>\<open>sns.kdeplot\<close> and reports on the curve that comes back. Run against a library
  that draws a curve with two modes at every bandwidth, it returns a report at \<open>h = 0\<close>
  and at \<open>h = -1\<close>.
\<close>

theorem find_maxima_accepts_nonpositive_bandwidth_counterexample:
  "fst (find_maxima (profile_libs (\<lambda>h. 2)) [1, 2] 0 fresh) = Inr (2, [1, 3]) \<and>
   fst (find_maxima (profile_libs (\<lambda>h. 2)) [1, 2] (- 1) fresh) = Inr (2, [1, 3])"
  by (simp add: find_maxima_run profile_libs_def sawtooth_def argrelmax_def upt_conv_Cons)

text \<open>
  C7, amended. \<^verbatim>\<open>find_maxima\<close> makes no check of the bandwidth: for every sample and
  every bandwidth \<open>h\<close>, \<open>h \<le> 0\<close> included, at which \<^verbatim>\<open>sns.kdeplot\<close> draws a density
  curve, it returns the mode report of that curve, the number and the \<open>x\<close> coordinates of
  its strict interior maxima, and signals no error.
\<close>

theorem find_maxima_reports_whenever_library_draws:
  assumes "kde_lines L data h = Inr (c # cs)"
  shows "fst (find_maxima L data h w) =
           Inr (int (length (argrelmax (map snd c))),
                map (\<lambda>i. map fst c ! i) (argrelmax (map snd c)))"
  using assms by (simp add: find_maxima_run)

text \<open>The report on a curve with one mode, drawn at bandwidth \<open>0\<close>.\<close>

theorem find_maxima_reports_whenever_library_draws_witness:
  "kde_lines (profile_libs (\<lambda>h. 1)) [1, 2] 0 = Inr ([(0, 0), (1, 1), (2, 0)] # []) \<and>
   fst (find_maxima (profile_libs (\<lambda>h. 1)) [1, 2] 0 fresh) = Inr (1, [1])"
proof -
  have lines: "kde_lines (profile_libs (\<lambda>h. 1)) [1, 2] 0 = Inr ([(0, 0), (1, 1), (2, 0)] # [])"
    by (simp add: profile_libs_def sawtooth_def upt_conv_Cons)
  have "argrelmax (map snd [(0, 0), (1, 1), (2, 0 :: real) :: real \<times> real]) = [1]"
    by (simp add: argrelmax_def upt_conv_Cons)
  with find_maxima_reports_whenever_library_draws [OF lines, of fresh] lines
  show ?thesis by simp
qed

subsection \<open>C8: \<^verbatim>\<open>find_maxima\<close> and the current figure\<close>

text \<open>
  C8 as claimed: \<^verbatim>\<open>find_maxima\<close> is pure, with no shared mutable state. The function
  works on matplotlib's current figure: \<^verbatim>\<open>plt.clf()\<close> wipes whatever was drawn there and
  \<^verbatim>\<open>sns.kdeplot\<close> draws the new curve on it. A figure holding two lines holds the one
  density curve after the call.
\<close>

theorem find_maxima_redraws_figure_counterexample:
  "snd (find_maxima (profile_libs (\<lambda>h. 1)) [1, 2] 1
         \<lparr>figure = [[(0, 0), (1, 5), (2, 0)], [(0, 1)]], rng = (), stdout = []\<rparr>)
     = \<lparr>figure = [[(0, 0), (1, 1), (2, 0)]], rng = (), stdout = []\<rparr>"
  by (simp add: find_maxima_run profile_libs_def sawtooth_def upt_conv_Cons)

text \<open>
  C8, amended. The mode count and the mode locations that \<^verbatim>\<open>find_maxima\<close> returns are a
  function of the sample and the bandwidth alone (given what the library draws for them):
  two calls with the same inputs return the same result whatever the state they start
  in. The call is not free of side effects: it replaces the content of the current
  figure by what the library drew, the density curve (by nothing when the library raised
  or drew nothing), and changes nothing else.
\<close>

theorem find_maxima_result_ignores_state_and_redraws:
  "fst (find_maxima L data h w) = fst (find_maxima L data h w') \<and>
   snd (find_maxima L data h w) =
     w\<lparr>figure := (case kde_lines L data h of Inl e \<Rightarrow> [] | Inr cs \<Rightarrow> cs)\<rparr>"
  by (simp add: find_maxima_run split: sum.splits list.splits)

subsection \<open>C9: the grid of candidate bandwidths\<close>

text \<open>
  C9 as claimed: the grid has \<open>N = floor(searchMax / searchStep)\<close> points. With
  \<open>searchMax = 10\<close> and \<open>searchStep = 3\<close> the quotient is not a whole number and
  \<^verbatim>\<open>np.arange(0, 10, 3)\<close> has the four points \<open>0, 3, 6, 9\<close>, not three; a search for two
  modes, with three modes below bandwidth \<open>9\<close>, returns the fourth point.
\<close>

theorem arange_grid_not_floor_counterexample:
  "np_arange (profile_libs (\<lambda>h. if h < 9 then 3 else 2)) 10 3 = Inr [0, 3, 6, 9] \<and>
   length [0, 3, 6, 9 :: real] = 4 \<and>
   nat \<lfloor>10 / 3 :: real\<rfloor> = 3 \<and>
   fst (binary_search (profile_libs (\<lambda>h. if h < 9 then 3 else 2)) [1, 2] 10 3 2 fresh) = Inr 9"
proof -
  let ?L = "profile_libs (\<lambda>h. if h < 9 then 3 else (2 :: nat))"
  have c: "\<lceil>10 / 3 :: real\<rceil> = 4" "\<lfloor>10 / 3 :: real\<rfloor> = 3"
    by linarith+
  have grid: "np_arange ?L 10 3 = Inr [0, 3, 6, 9]"
    by (simp add: np_arange_def profile_libs_def c upt_conv_Cons)
  have "fst (bs_while ?L [1, 2] [0, 3, 6, 9] 2 (bs_init [0, 3, 6, 9]) fresh)
      = Inr \<lparr>start = 3, end' = 3, found = True, found_h = 9\<rparr>"
    by (simp add: bs_while_fst bs_body_result mode_count_profile py_index_def py_int_half_def
        bs_init_def)
  with grid have "fst (binary_search ?L [1, 2] 10 3 2 fresh) = Inr 9"
    by (simp add: binary_search_result)
  with grid c show ?thesis
    by simp
qed

text \<open>
  C9, amended. For \<open>searchMax > 0\<close> and \<open>searchStep > 0\<close> the grid that \<^verbatim>\<open>binary_search\<close>
  searches, from index \<open>0\<close> to index \<open>N - 1\<close>, is \<^verbatim>\<open>np.arange(0, searchMax, searchStep)\<close>: it
  has \<open>N = ceil(q)\<close> points, \<open>q\<close> being the double that the float division
  \<open>searchMax / searchStep\<close> returns, and its point of index \<open>i\<close> is the float product
  \<open>i * searchStep\<close>. When the division is rounded with relative error at most \<open>2\<^sup>-\<^sup>5\<^sup>3\<close>,
  \<open>N\<close> is \<open>floor(q)\<close> exactly when \<open>q\<close> is a whole number. When \<open>N \<le> 2\<^sup>5\<^sup>2\<close> and the products
  are rounded with relative error at most \<open>2\<^sup>-\<^sup>5\<^sup>3\<close>, the grid is strictly increasing.
\<close>

theorem arange_grid_shape:
  assumes "0 < searchMax" and "0 < searchStep"
  shows "\<exists>grid. np_arange L searchMax searchStep = Inr grid \<and>
           fst (binary_search L data searchMax searchStep k w)
             = map_sum id found_h (fst (bs_while L data grid k (bs_init grid) w)) \<and>
           start (bs_init grid) = 0 \<and> end' (bs_init grid) = int (length grid) - 1 \<and>
           length grid = nat \<lceil>fl L (searchMax / searchStep)\<rceil> \<and>
           (\<forall>i < length grid. grid ! i = fl L (real i * searchStep)) \<and>
           (\<bar>fl L (searchMax / searchStep) - searchMax / searchStep\<bar>
              \<le> searchMax / searchStep / 2 ^ 53 \<longrightarrow>
            (length grid = nat \<lfloor>fl L (searchMax / searchStep)\<rfloor>
              \<longleftrightarrow> fl L (searchMax / searchStep) \<in> \<int>)) \<and>
           (length grid \<le> 2 ^ 52 \<and>
            (\<forall>i < length grid. \<bar>fl L (real i * searchStep) - real i * searchStep\<bar>
                \<le> real i * searchStep / 2 ^ 53) \<longrightarrow>
            sorted_wrt (<) grid)"
proof -
  define q where "q = fl L (searchMax / searchStep)"
  define grid where "grid = map (\<lambda>i. fl L (real i * searchStep)) [0..<nat \<lceil>q\<rceil>]"
  have grid: "np_arange L searchMax searchStep = Inr grid"
    using assms(2) by (simp add: np_arange_def grid_def q_def)
  have len: "length grid = nat \<lceil>q\<rceil>"
    by (simp add: grid_def)
  have nth: "\<forall>i < length grid. grid ! i = fl L (real i * searchStep)"
    by (simp add: grid_def)
  have search: "fst (binary_search L data searchMax searchStep k w)
             = map_sum id found_h (fst (bs_while L data grid k (bs_init grid) w))"
    by (simp add: binary_search_result grid)
  have init: "start (bs_init grid) = 0" "end' (bs_init grid) = int (length grid) - 1"
    by (simp_all add: bs_init_def)
  have fl_iff: "length grid = nat \<lfloor>q\<rfloor> \<longleftrightarrow> q \<in> \<int>"
    if r: "\<bar>q - searchMax / searchStep\<bar> \<le> searchMax / searchStep / 2 ^ 53"
  proof -
    have pos: "0 < searchMax / searchStep"
      using assms by simp
    have "searchMax / searchStep / 2 ^ 53 < searchMax / searchStep"
      using pos by (simp add: field_simps)
    with r have "0 < q"
      by linarith
    then have nn: "0 \<le> \<lfloor>q\<rfloor>" "0 \<le> \<lceil>q\<rceil>"
      by (simp_all add: less_imp_le le_floor_iff) 
    show ?thesis
    proof
      assume "length grid = nat \<lfloor>q\<rfloor>"
      with len have "nat \<lceil>q\<rceil> = nat \<lfloor>q\<rfloor>"
        by metis
      then have "\<lceil>q\<rceil> = \<lfloor>q\<rfloor>"
        by (simp only: eq_nat_nat_iff [OF nn(2) nn(1)])
      then have "q \<le> of_int \<lfloor>q\<rfloor>"
        using le_of_int_ceiling [of q] by simp
      then have "q = of_int \<lfloor>q\<rfloor>"
        using of_int_floor_le [of q] by (rule antisym)
      then show "q \<in> \<int>"
        by (metis Ints_of_int)
    next
      assume "q \<in> \<int>"
      then obtain z where "q = of_int z"
        by (rule Ints_cases)
      then show "length grid = nat \<lfloor>q\<rfloor>"
        by (simp add: len)
    qed
  qed
  have sorted: "sorted_wrt (<) grid"
    if N: "length grid \<le> 2 ^ 52"
      and r: "\<forall>i < length grid. \<bar>fl L (real i * searchStep) - real i * searchStep\<bar>
                \<le> real i * searchStep / 2 ^ 53"
  proof -
    have "grid ! i < grid ! j" if "i < j" "j < length grid" for i j
    proof -
      from that have "i < length grid"
        by simp
      with that r nth
      have "fl L (real i * searchStep) < fl L (real j * searchStep)"
        by (intro rounded_products_increase [OF assms(2) that(1) that(2) N]) simp_all
      with that nth \<open>i < length grid\<close> show ?thesis
        by simp
    qed
    then show ?thesis
      by (simp add: sorted_wrt_iff_nth_less)
  qed
  from grid search init len nth fl_iff sorted show ?thesis
    unfolding q_def by blast
qed

text \<open>The grid of the example above, with arithmetic that rounds nothing.\<close>

theorem arange_grid_shape_witness:
  "(0 :: real) < 10 \<and> (0 :: real) < 3 \<and>
   np_arange (profile_libs (\<lambda>h. if h < 9 then 3 else 2)) 10 3 = Inr [0, 3, 6, 9] \<and>
   fst (binary_search (profile_libs (\<lambda>h. if h < 9 then 3 else 2)) [1, 2] 10 3 2 fresh)
     = map_sum id found_h
         (fst (bs_while (profile_libs (\<lambda>h. if h < 9 then 3 else 2)) [1, 2] [0, 3, 6, 9] 2
                (bs_init [0, 3, 6, 9]) fresh)) \<and>
   start (bs_init [0, 3, 6, 9]) = 0 \<and> end' (bs_init [0, 3, 6, 9]) = 3 \<and>
   length [0, 3, 6, 9 :: real]
     = nat \<lceil>fl (profile_libs (\<lambda>h. if h < 9 then 3 else 2)) (10 / 3)\<rceil> \<and>
   [0, 3, 6, 9] ! 2 = fl (profile_libs (\<lambda>h. if h < 9 then 3 else 2)) (real 2 * 3) \<and>
   \<bar>fl (profile_libs (\<lambda>h. if h < 9 then 3 else 2)) (10 / 3) - 10 / 3\<bar> \<le> 10 / 3 / 2 ^ 53 \<and>
   length [0, 3, 6, 9 :: real]
     \<noteq> nat \<lfloor>fl (profile_libs (\<lambda>h. if h < 9 then 3 else 2)) (10 / 3)\<rfloor> \<and>
   fl (profile_libs (\<lambda>h. if h < 9 then 3 else 2)) (10 / 3) \<notin> \<int> \<and>
   sorted_wrt (<) [0, 3, 6, 9 :: real]"
proof -
  let ?L = "profile_libs (\<lambda>h. if h < 9 then 3 else (2 :: nat))"
  let ?G = "[0, 3, 6, 9 :: real]"
  have fl: "fl ?L = (\<lambda>x. x)"
    by (simp add: profile_libs_def)
  have c: "\<lceil>10 / 3 :: real\<rceil> = 4" "\<lfloor>10 / 3 :: real\<rfloor> = 3"
    by linarith+
  have pos: "(0 :: real) < 10" "(0 :: real) < 3"
    by simp_all
  have lit: "np_arange ?L 10 3 = Inr ?G"
    by (simp add: np_arange_def fl c upt_conv_Cons)
  from arange_grid_shape [OF pos, of ?L "[1, 2]" 2 fresh]
  obtain g where g: "np_arange ?L 10 3 = Inr g"
    "fst (binary_search ?L [1, 2] 10 3 2 fresh)
             = map_sum id found_h (fst (bs_while ?L [1, 2] g 2 (bs_init g) fresh))"
    "start (bs_init g) = 0" "end' (bs_init g) = int (length g) - 1"
    "length g = nat \<lceil>fl ?L (10 / 3)\<rceil>"
    "\<forall>i < length g. g ! i = fl ?L (real i * 3)"
    "\<bar>fl ?L (10 / 3) - 10 / 3\<bar> \<le> 10 / 3 / 2 ^ 53 \<longrightarrow>
       (length g = nat \<lfloor>fl ?L (10 / 3)\<rfloor> \<longleftrightarrow> fl ?L (10 / 3) \<in> \<int>)"
    "length g \<le> 2 ^ 52 \<and>
       (\<forall>i < length g. \<bar>fl ?L (real i * 3) - real i * 3\<bar> \<le> real i * 3 / 2 ^ 53) \<longrightarrow>
       sorted_wrt (<) g"
    by blast
  from g(1) lit have "g = ?G"
    by simp
  note T = g(2-) [unfolded \<open>g = ?G\<close>]
  have r1: "\<bar>fl ?L (10 / 3) - 10 / 3\<bar> \<le> 10 / 3 / 2 ^ 53"
    by (simp add: fl)
  have r2: "length ?G \<le> 2 ^ 52"
    "\<forall>i < length ?G. \<bar>fl ?L (real i * 3) - real i * 3\<bar> \<le> real i * 3 / 2 ^ 53"
    by (simp_all add: fl)
  have ne: "length ?G \<noteq> nat \<lfloor>fl ?L (10 / 3)\<rfloor>"
    by (simp add: fl c)
  from T(6) r1 ne have nint: "fl ?L (10 / 3) \<notin> \<int>"
    by blast
  from T(7) r2 have srt: "sorted_wrt (<) ?G"
    by blast
  from T(3) have e: "end' (bs_init ?G) = 3"
    by simp
  have "(2 :: nat) < length ?G"
    by simp
  with T(5) have n2: "?G ! 2 = fl ?L (real 2 * 3)"
    by blast
  from pos lit T(1,2,4) e n2 r1 ne nint srt show ?thesis
    by blast
qed

subsection \<open>C10: the loop terminates\<close>

text \<open>
  C10. The loop of \<^verbatim>\<open>binary_search\<close> terminates, from every state of its variables
  and for every sample, grid and \<open>k\<close>: it ends within \<open>end - start + 1\<close> passes. Every
  pass that is entered (\<open>start \<le> end\<close>, \<open>found\<close> false) and completes either sets \<open>found\<close>
  or strictly decreases the size \<open>end - start + 1\<close> of the remaining index interval; a
  pass that raises leaves the loop. When the loop returns, its condition is false.
\<close>

theorem binary_search_loop_terminates:
  "bs_while_passes (nat (end' v - start v + 1)) L data grid k v w
     = Some (bs_while L data grid k v w) \<and>
   (start v \<le> end' v \<and> \<not> found v \<and> fst (bs_body L data grid k v w) = Inr v' \<longrightarrow>
      found v' \<or> nat (end' v' - start v' + 1) < nat (end' v - start v + 1)) \<and>
   (fst (bs_while L data grid k v w) = Inr v'' \<longrightarrow>
      \<not> (start v'' \<le> end' v'' \<and> \<not> found v''))"
proof -
  have "found v' \<or> nat (end' v' - start v' + 1) < nat (end' v - start v + 1)"
    if "start v \<le> end' v" "\<not> found v" "fst (bs_body L data grid k v w) = Inr v'"
    using bs_body_decreases [OF that] that(1) by auto
  moreover have "\<not> (start v'' \<le> end' v'' \<and> \<not> found v'')"
    if "fst (bs_while L data grid k v w) = Inr v''"
    using bs_while_rule [where P = "\<lambda>_. True", OF that] by simp
  moreover have "bs_while_passes (nat (end' v - start v + 1)) L data grid k v w
     = Some (bs_while L data grid k v w)"
    by (rule bs_while_passes_enough) simp
  ultimately show ?thesis by blast
qed

text \<open>
  On the grid \<open>0, 1, ..., 5\<close> with \<open>k = 1\<close>: the first pass moves \<open>start\<close> from \<open>0\<close> to \<open>3\<close>,
  the interval shrinks from six indices to three, and the loop ends with \<open>found\<close> set.
\<close>

theorem binary_search_loop_terminates_witness:
  "bs_while_passes (nat (5 - 0 + 1)) (profile_libs (\<lambda>h. if h < 2 then 3 else if h < 4 then 2 else 1))
      [1, 2] [0, 1, 2, 3, 4, 5] 1 \<lparr>start = 0, end' = 5, found = False, found_h = 12345\<rparr> fresh
     = Some (bs_while (profile_libs (\<lambda>h. if h < 2 then 3 else if h < 4 then 2 else 1))
      [1, 2] [0, 1, 2, 3, 4, 5] 1 \<lparr>start = 0, end' = 5, found = False, found_h = 12345\<rparr> fresh) \<and>
   fst (bs_body (profile_libs (\<lambda>h. if h < 2 then 3 else if h < 4 then 2 else 1)) [1, 2]
        [0, 1, 2, 3, 4, 5] 1 \<lparr>start = 0, end' = 5, found = False, found_h = 12345\<rparr> fresh)
     = Inr \<lparr>start = 3, end' = 5, found = False, found_h = 12345\<rparr> \<and>
   nat (5 - 3 + 1) < nat (5 - 0 + 1) \<and>
   fst (bs_while (profile_libs (\<lambda>h. if h < 2 then 3 else if h < 4 then 2 else 1)) [1, 2]
        [0, 1, 2, 3, 4, 5] 1 \<lparr>start = 0, end' = 5, found = False, found_h = 12345\<rparr> fresh)
     = Inr \<lparr>start = 3, end' = 5, found = True, found_h = 4\<rparr> \<and>
   \<not> (3 \<le> (5 :: int) \<and> \<not> True)"
proof -
  let ?L = "profile_libs (\<lambda>h. if h < 2 then 3 else if h < 4 then 2 else (1 :: nat))"
  let ?grid = "[0, 1, 2, 3, 4, 5 :: real]"
  let ?v = "\<lparr>start = 0, end' = 5, found = False, found_h = 12345\<rparr>"
  let ?v' = "\<lparr>start = 3, end' = 5, found = False, found_h = 12345\<rparr>"
  let ?v'' = "\<lparr>start = 3, end' = 5, found = True, found_h = 4\<rparr>"
  have body: "fst (bs_body ?L [1, 2] ?grid 1 ?v fresh) = Inr ?v'"
    by (simp add: bs_body_result mode_count_profile py_index_def py_int_half_def)
  have loop: "fst (bs_while ?L [1, 2] ?grid 1 ?v fresh) = Inr ?v''"
    by (simp add: bs_while_fst bs_body_result mode_count_profile py_index_def py_int_half_def)
  have guard: "start ?v \<le> end' ?v \<and> \<not> found ?v \<and> fst (bs_body ?L [1, 2] ?grid 1 ?v fresh) = Inr ?v'"
    using body by simp
  note T = binary_search_loop_terminates [of ?v ?L "[1, 2]" ?grid 1 fresh ?v' ?v'']
  from T have "bs_while_passes (nat (end' ?v - start ?v + 1)) ?L [1, 2] ?grid 1 ?v fresh
      = Some (bs_while ?L [1, 2] ?grid 1 ?v fresh)"
    by blast
  then have p: "bs_while_passes (nat (5 - 0 + 1)) ?L [1, 2] ?grid 1 ?v fresh
      = Some (bs_while ?L [1, 2] ?grid 1 ?v fresh)"
    by simp
  from T guard have "found ?v' \<or> nat (end' ?v' - start ?v' + 1) < nat (end' ?v - start ?v + 1)"
    by blast
  then have d: "nat (5 - 3 + 1) < nat (5 - 0 + 1)"
    by simp
  from T loop have "\<not> (start ?v'' \<le> end' ?v'' \<and> \<not> found ?v'')"
    by blast
  then have e: "\<not> (3 \<le> (5 :: int) \<and> \<not> True)"
    by simp
  from p body d loop e show ?thesis
    by blast
qed

end
